theory Spec2Isabelle
  imports Main "HOL-Library.AList"
begin

section \<open>Python values used by car_spider_playwright.py\<close>

text \<open>
  A Python \<open>str\<close> is a sequence of Unicode code points; the source compares strings with
  literals outside ASCII, strips them and tests them for emptiness, so a string is the list
  of its code points. \<open>ascii\<close> turns an ASCII literal into such a list.
\<close>

type_synonym pystr = "nat list"

definition ascii :: "string \<Rightarrow> pystr" where
  "ascii s = map of_char s"

text \<open>\<open>str.strip()\<close> without argument removes the code points for which \<open>str.isspace\<close>
  holds from both ends.\<close>

definition is_space :: "nat \<Rightarrow> bool" where
  "is_space c \<longleftrightarrow>
     (9 \<le> c \<and> c \<le> 13) \<or> (28 \<le> c \<and> c \<le> 32) \<or> c = 133 \<or> c = 160 \<or> c = 5760 \<or>
     (8192 \<le> c \<and> c \<le> 8202) \<or> c = 8232 \<or> c = 8233 \<or> c = 8239 \<or> c = 8287 \<or> c = 12288"

definition strip :: "pystr \<Rightarrow> pystr" where
  "strip s = rev (dropWhile is_space (rev (dropWhile is_space s)))"

text \<open>\<open>str(n)\<close> for a non-negative integer, as the f-strings of the source format it.\<close>

fun str_nat :: "nat \<Rightarrow> pystr" where
  "str_nat n = (if n < 10 then [48 + n] else str_nat (n div 10) @ [48 + n mod 10])"

declare str_nat.simps [simp del]

text \<open>A \<open>dict\<close> keeps its keys in insertion order; assigning to an existing key keeps the
  key's position. That is an association list under \<open>AList.update\<close>. A dict is truthy
  when it is not empty.\<close>

type_synonym ('k, 'v) pydict = "('k \<times> 'v) list"

text \<open>A call of the browser automation layer either raises or returns.\<close>

datatype 'a outcome = Raises | Returns 'a

section \<open>The page as the automation layer shows it\<close>

text \<open>
  An element handle is what \<open>text_content()\<close> answers for it: the call raises, or it
  returns \<open>None\<close>, or it returns a string.
\<close>

datatype element = TextRaises | TextNone | Text pystr

text \<open>\<open>(await e.text_content()).strip()\<close>: on a raise, and on \<open>None\<close> (which has no
  \<open>strip\<close>), an exception reaches the enclosing handler; that is \<open>None\<close> here.\<close>

fun stripped_text :: "element \<Rightarrow> pystr option" where
  "stripped_text TextRaises = None"
| "stripped_text TextNone = None"
| "stripped_text (Text s) = Some (strip s)"

text \<open>A parameter row: the answer of \<open>row.query_selector\<close> for the name cell (\<open>None\<close>
  when nothing matches) and of \<open>row.query_selector_all\<close> for the value cells.\<close>

record row =
  name_cell :: "element option outcome"
  value_cells :: "element list outcome"

text \<open>
  A page: whether the two \<open>wait_for_load_state\<close> calls return (in \<open>wait_for_page_load\<close>
  and in \<open>extract_car_info\<close>), which selectors \<open>wait_for_selector\<close> finds visible, and the
  answers of \<open>query_selector_all\<close> for the primary and the alternate selectors of the car
  styles and of the parameter rows.
\<close>

record page =
  ready_load_ok :: bool
  visible :: "string \<Rightarrow> bool"
  extract_load_ok :: bool
  styles_primary :: "element list outcome"
  styles_fallback :: "element list outcome"
  rows_primary :: "row list outcome"
  rows_fallback :: "row list outcome"

section \<open>What the program prints and does\<close>

text \<open>
  The messages and the outside effects of the program, in the order they happen. Messages that
  only report progress (how many car styles or rows were found, the name of each car style)
  are left out.
\<close>

type_synonym car_data = "(pystr, (pystr, pystr) pydict) pydict"

datatype event =
    NoCarStyles
  | NoParamRows
  | Extracted pystr pystr pystr
  | Skipped pystr pystr pystr
  | ValueFailed
  | CountMismatch pystr nat nat
  | ExtractedPartial pystr pystr pystr
  | PartialValueFailed
  | RowFailed
  | NothingExtracted
  | ExtractError
  | PlaywrightStarted
  | BrowserLaunched
  | BrowserClosed
  | PlaywrightStopped
  | Goto pystr
  | PageLoadFailed nat
  | ExtractFailed nat
  | AttemptError
  | SleepUniform nat nat
  | MaxRetriesReached pystr
  | FileWritten pystr pystr car_data
  | SaveFailed
  | RunError
  | MissingUrl pystr
  | SpiderCreated pystr pystr pystr pystr
  | CarFailed pystr
  | EmptyCarList
  | AggregateWritten pystr "(pystr, (pystr, car_data) pydict) pydict"

section \<open>extract_car_info\<close>

definition placeholders :: "pystr list" where
  "placeholders = [[8212, 8212], ascii ''/'', [31354], ascii ''N/A'']"

text \<open>The test of lines 181 and 198:
  \<open>param_name and param_value and param_value not in [...]\<close>.\<close>

definition valid_param :: "pystr \<Rightarrow> pystr \<Rightarrow> bool" where
  "valid_param param_name param_value \<longleftrightarrow>
     param_name \<noteq> [] \<and> param_value \<noteq> [] \<and> param_value \<notin> set placeholders"

text \<open>\<open>all_car_data[car_name][param_name] = param_value\<close>; a missing \<open>car_name\<close> is a
  \<open>KeyError\<close>, here \<open>None\<close>.\<close>

definition set_param :: "pystr \<Rightarrow> pystr \<Rightarrow> pystr \<Rightarrow> car_data \<Rightarrow> car_data option" where
  "set_param car_name param_name param_value all_car_data =
     (case map_of all_car_data car_name of
        None \<Rightarrow> None
      | Some d \<Rightarrow> Some (AList.update car_name (AList.update param_name param_value d) all_car_data))"

text \<open>The synthesized name \<open>f'\<dots>_{idx}'\<close> of line 138 and line 144.\<close>

definition placeholder_name :: "nat \<Rightarrow> pystr" where
  "placeholder_name idx = [36710, 22411, 95] @ str_nat idx"

text \<open>One pass of the loop of lines 133 to 145 over \<open>enumerate(car_styles, 1)\<close>: the state is
  \<open>car_names\<close> and \<open>all_car_data\<close>.\<close>

definition name_of_style :: "nat \<Rightarrow> element \<Rightarrow> pystr" where
  "name_of_style idx car_style =
     (case stripped_text car_style of
        None \<Rightarrow> placeholder_name idx
      | Some car_name \<Rightarrow> if car_name = [] then placeholder_name idx else car_name)"

fun collect_names :: "nat \<Rightarrow> element list \<Rightarrow> pystr list \<times> car_data \<Rightarrow> pystr list \<times> car_data" where
  "collect_names idx [] st = st"
| "collect_names idx (car_style # rest) (car_names, all_car_data) =
     collect_names (Suc idx) rest
       (car_names @ [name_of_style idx car_style],
        AList.update (name_of_style idx car_style) [] all_car_data)"

text \<open>The body of the loop of the equal-count branch, lines 176 to 187.\<close>

definition put_value :: "pystr \<Rightarrow> pystr \<Rightarrow> element \<Rightarrow> car_data \<times> event list \<Rightarrow> car_data \<times> event list" where
  "put_value param_name car_name value_cell st =
     (case stripped_text value_cell of
        None \<Rightarrow> (fst st, snd st @ [ValueFailed])
      | Some param_value \<Rightarrow>
          if valid_param param_name param_value then
            (case set_param car_name param_name param_value (fst st) of
               None \<Rightarrow> (fst st, snd st @ [ValueFailed])
             | Some d \<Rightarrow> (d, snd st @ [Extracted car_name param_name param_value]))
          else (fst st, snd st @ [Skipped car_name param_name param_value]))"

text \<open>The body of the loop of the mismatched-count branch, lines 193 to 202; a value that
  fails the test is dropped without a message.\<close>

definition put_partial :: "pystr \<Rightarrow> pystr \<Rightarrow> element \<Rightarrow> car_data \<times> event list \<Rightarrow> car_data \<times> event list" where
  "put_partial param_name car_name value_cell st =
     (case stripped_text value_cell of
        None \<Rightarrow> (fst st, snd st @ [PartialValueFailed])
      | Some param_value \<Rightarrow>
          if valid_param param_name param_value then
            (case set_param car_name param_name param_value (fst st) of
               None \<Rightarrow> (fst st, snd st @ [PartialValueFailed])
             | Some d \<Rightarrow> (d, snd st @ [ExtractedPartial car_name param_name param_value]))
          else st)"

text \<open>\<open>for i, value_cell in enumerate(value_cells): if i < len(car_names): \<dots>\<close>\<close>

fun partial_loop :: "pystr list \<Rightarrow> pystr \<Rightarrow> nat \<Rightarrow> element list \<Rightarrow> car_data \<times> event list \<Rightarrow> car_data \<times> event list" where
  "partial_loop car_names param_name i [] st = st"
| "partial_loop car_names param_name i (value_cell # rest) st =
     partial_loop car_names param_name (Suc i) rest
       (if i < length car_names then put_partial param_name (car_names ! i) value_cell st else st)"

text \<open>Lines 173 to 202: the alignment of one row's values with the car names.\<close>

definition align_row :: "pystr list \<Rightarrow> pystr \<Rightarrow> element list \<Rightarrow> car_data \<times> event list \<Rightarrow> car_data \<times> event list" where
  "align_row car_names param_name cells st =
     (if length cells = length car_names then
        fold (\<lambda>(car_name, value_cell). put_value param_name car_name value_cell) (zip car_names cells) st
      else
        partial_loop car_names param_name 0 cells
          (fst st, snd st @ [CountMismatch param_name (length cells) (length car_names)]))"

text \<open>The body of the loop over the rows, lines 160 to 205. A row without a name cell is
  passed over; any exception while the name or the cells are read ends the row with a
  message.\<close>

definition process_row :: "pystr list \<Rightarrow> row \<Rightarrow> car_data \<times> event list \<Rightarrow> car_data \<times> event list" where
  "process_row car_names r st =
     (case name_cell r of
        Raises \<Rightarrow> (fst st, snd st @ [RowFailed])
      | Returns None \<Rightarrow> st
      | Returns (Some cell) \<Rightarrow>
          (case stripped_text cell of
             None \<Rightarrow> (fst st, snd st @ [RowFailed])
           | Some param_name \<Rightarrow>
               (case value_cells r of
                  Raises \<Rightarrow> (fst st, snd st @ [RowFailed])
                | Returns cells \<Rightarrow> align_row car_names param_name cells st)))"

text \<open>The function, lines 110 to 216. It returns the result (\<open>None\<close> on failure) and the
  messages.\<close>

definition extract_rows :: "pystr list \<Rightarrow> car_data \<Rightarrow> row list \<Rightarrow> car_data option \<times> event list" where
  "extract_rows car_names all_car_data param_rows =
     (let st = fold (process_row car_names) param_rows (all_car_data, [])
      in if fst st = [] then (None, snd st @ [NothingExtracted]) else (Some (fst st), snd st))"

definition extract_params :: "page \<Rightarrow> pystr list \<Rightarrow> car_data \<Rightarrow> car_data option \<times> event list" where
  "extract_params p car_names all_car_data =
     (case rows_primary p of
        Raises \<Rightarrow> (None, [ExtractError])
      | Returns param_rows \<Rightarrow>
          if param_rows \<noteq> [] then extract_rows car_names all_car_data param_rows
          else
            (case rows_fallback p of
               Raises \<Rightarrow> (None, [ExtractError])
             | Returns param_rows' \<Rightarrow>
                 if param_rows' = [] then (None, [NoParamRows])
                 else extract_rows car_names all_car_data param_rows'))"

definition extract_styles :: "page \<Rightarrow> element list \<Rightarrow> car_data option \<times> event list" where
  "extract_styles p car_styles =
     (let st = collect_names 1 car_styles ([], []) in extract_params p (fst st) (snd st))"

definition extract_car_info :: "page \<Rightarrow> car_data option \<times> event list" where
  "extract_car_info p =
     (if \<not> extract_load_ok p then (None, [ExtractError])
      else
        (case styles_primary p of
           Raises \<Rightarrow> (None, [ExtractError])
         | Returns car_styles \<Rightarrow>
             if car_styles \<noteq> [] then extract_styles p car_styles
             else
               (case styles_fallback p of
                  Raises \<Rightarrow> (None, [ExtractError])
                | Returns car_styles' \<Rightarrow>
                    if car_styles' = [] then (None, [NoCarStyles])
                    else extract_styles p car_styles')))"

section \<open>The CarSpider class\<close>

record spider =
  url :: pystr
  name :: pystr
  car_name :: pystr
  output_dir :: pystr

definition unknown_brand :: pystr where
  "unknown_brand = [26410, 30693, 21697, 29260]"

definition unknown_model :: pystr where
  "unknown_model = [26410, 30693, 36710, 22411]"

text \<open>\<open>x if x else default\<close> for an argument that is \<open>None\<close> or a string.\<close>

definition or_default :: "pystr option \<Rightarrow> pystr \<Rightarrow> pystr" where
  "or_default x d = (case x of None \<Rightarrow> d | Some s \<Rightarrow> if s \<noteq> [] then s else d)"

text \<open>\<open>__init__\<close>, lines 11 to 27; \<open>now\<close> is the formatted current time. Creating the
  directory is left to the file system.\<close>

definition CarSpider :: "pystr \<Rightarrow> pystr \<Rightarrow> pystr option \<Rightarrow> pystr option \<Rightarrow> pystr option \<Rightarrow> spider" where
  "CarSpider now u n c dir =
     \<lparr>url = u, name = or_default n unknown_brand, car_name = or_default c unknown_model,
      output_dir = (case dir of None \<Rightarrow> now | Some d \<Rightarrow> d)\<rparr>"

text \<open>
  What the outside world does while one car is processed: how \<open>init_browser\<close> ends, whether
  \<open>create_context\<close> and \<open>new_page\<close> return, what the \<open>k\<close>-th \<open>page.goto\<close> gives (counted
  from 0), and whether the JSON file can be written.
\<close>

datatype init_result = InitOk | StartFails | LaunchFails

datatype attempt = GotoRaises | Arrived page

record site =
  init_result :: init_result
  context_ok :: bool
  attempts :: "nat \<Rightarrow> attempt"
  write_ok :: bool

text \<open>\<open>wait_for_page_load\<close>, lines 65 to 108: the selectors are tried in order and the first
  visible one ends the function with \<open>True\<close>; the statements after the inner \<open>try\<close> are never
  reached. Only the returned value is modelled.\<close>

definition selectors :: "string list" where
  "selectors = [''div.table-box.main-table-box'', ''.car-config'', ''.parameter-list'',
     ''.config-list'', ''.spec-list'']"

fun first_visible :: "page \<Rightarrow> string list \<Rightarrow> bool" where
  "first_visible p [] = False"
| "first_visible p (selector # rest) = (if visible p selector then True else first_visible p rest)"

definition wait_for_page_load :: "page \<Rightarrow> bool" where
  "wait_for_page_load p = (if \<not> ready_load_ok p then False else first_visible p selectors)"

text \<open>\<open>save_data\<close>, lines 218 to 231.\<close>

definition save_data :: "spider \<Rightarrow> site \<Rightarrow> car_data \<Rightarrow> car_data option \<times> event list" where
  "save_data sp w data =
     (if write_ok w
      then (Some data, [FileWritten (output_dir sp) (name sp @ ascii ''_'' @ car_name sp @ ascii ''.json'') data])
      else (None, [SaveFailed]))"

text \<open>The truth value of an \<open>Optional[Dict]\<close>.\<close>

definition truthy :: "('k, 'v) pydict option \<Rightarrow> bool" where
  "truthy x = (case x of None \<Rightarrow> False | Some d \<Rightarrow> d \<noteq> [])"

text \<open>
  The \<open>while\<close> loop of \<open>run\<close>, lines 244 to 271. It gives \<open>result_data\<close>, the final
  \<open>retry_count\<close> and the events. Every pass either leaves the loop or adds one to
  \<open>retry_count\<close>, so the pass that starts with \<open>retry_count = k\<close> makes the \<open>k\<close>-th
  \<open>page.goto\<close>.
\<close>

definition attempt_events :: "event list \<Rightarrow> car_data option \<times> nat \<times> event list \<Rightarrow> car_data option \<times> nat \<times> event list" where
  "attempt_events evs r = (fst r, fst (snd r), evs @ snd (snd r))"

function run_loop :: "spider \<Rightarrow> site \<Rightarrow> nat \<Rightarrow> nat \<Rightarrow> car_data option \<times> nat \<times> event list" where
  "run_loop sp w max_retries retry_count =
     (if retry_count < max_retries then
        (case attempts w retry_count of
           GotoRaises \<Rightarrow>
             attempt_events [Goto (url sp), AttemptError, SleepUniform 5 10]
               (run_loop sp w max_retries (Suc retry_count))
         | Arrived p \<Rightarrow>
             if \<not> wait_for_page_load p then
               attempt_events [Goto (url sp), PageLoadFailed (retry_count + 1)]
                 (run_loop sp w max_retries (Suc retry_count))
             else if truthy (fst (extract_car_info p)) then
               (fst (save_data sp w (the (fst (extract_car_info p)))), retry_count,
                Goto (url sp) # snd (extract_car_info p)
                  @ snd (save_data sp w (the (fst (extract_car_info p)))))
             else
               attempt_events
                 (Goto (url sp) # snd (extract_car_info p)
                    @ [ExtractFailed (retry_count + 1), SleepUniform 5 10])
                 (run_loop sp w max_retries (Suc retry_count)))
      else (None, retry_count, []))"
  by pat_completeness auto
termination
  by (relation "measure (\<lambda>(sp, w, max_retries, retry_count). max_retries - retry_count)") auto

declare run_loop.simps [simp del]

text \<open>
  \<open>run\<close>, lines 233 to 283. When \<open>init_browser\<close> raises, \<open>self.browser\<close> was never assigned,
  so \<open>self.browser.close()\<close> in the \<open>finally\<close> block raises in its turn and \<open>run\<close> ends with
  that exception.
\<close>

definition max_retries :: nat where
  "max_retries = 3"

definition run :: "spider \<Rightarrow> site \<Rightarrow> car_data option outcome \<times> event list" where
  "run sp w =
     (case init_result w of
        StartFails \<Rightarrow> (Raises, [RunError])
      | LaunchFails \<Rightarrow> (Raises, [PlaywrightStarted, RunError])
      | InitOk \<Rightarrow>
          if \<not> context_ok w then
            (Returns None, [PlaywrightStarted, BrowserLaunched, RunError, BrowserClosed, PlaywrightStopped])
          else
            (let r = run_loop sp w max_retries 0 in
               (Returns (fst r),
                [PlaywrightStarted, BrowserLaunched] @ snd (snd r)
                  @ (if fst (snd r) \<ge> max_retries then [MaxRetriesReached (car_name sp)] else [])
                  @ [BrowserClosed, PlaywrightStopped])))"

section \<open>The batch\<close>

text \<open>An entry of \<open>car_list.json\<close> is a dict with string values under the keys \<open>name\<close>,
  \<open>subname\<close> and \<open>url\<close>, any of which may be missing.\<close>

type_synonym car_info = "(string, pystr) pydict"

text \<open>\<open>d.get(key, default)\<close>\<close>

definition get_or :: "car_info \<Rightarrow> string \<Rightarrow> pystr \<Rightarrow> pystr" where
  "get_or d k dflt = (case map_of d k of None \<Rightarrow> dflt | Some v \<Rightarrow> v)"

text \<open>\<open>process_car\<close>, lines 285 to 300.\<close>

definition process_car :: "car_info \<Rightarrow> site \<Rightarrow> pystr \<Rightarrow> car_data option \<times> event list" where
  "process_car info w dir =
     (let n = get_or info ''name'' unknown_brand;
          subname = get_or info ''subname'' unknown_model
      in case map_of info ''url'' of
           None \<Rightarrow> (None, [MissingUrl subname])
         | Some u \<Rightarrow>
             if u = [] then (None, [MissingUrl subname])
             else
               (let sp = CarSpider dir u (Some n) (Some subname) (Some dir)
                in case run sp w of
                     (Raises, evs) \<Rightarrow> (None, SpiderCreated u n subname dir # evs @ [CarFailed subname])
                   | (Returns r, evs) \<Rightarrow> (r, SpiderCreated u n subname dir # evs)))"

text \<open>The body of the loop of \<open>process_all_cars\<close>, lines 325 to 336; the state is
  \<open>all_cars_data\<close> and the events so far.\<close>

type_synonym all_cars = "(pystr, (pystr, car_data) pydict) pydict"

definition add_car :: "car_info \<Rightarrow> car_data \<Rightarrow> all_cars \<Rightarrow> all_cars" where
  "add_car info data all_cars_data =
     (let brand_name = get_or info ''name'' unknown_brand;
          subname = get_or info ''subname'' unknown_model;
          models = (case map_of all_cars_data brand_name of None \<Rightarrow> [] | Some m \<Rightarrow> m)
      in AList.update brand_name (AList.update subname data models) all_cars_data)"

definition batch_step :: "pystr \<Rightarrow> car_info \<times> site \<Rightarrow> all_cars \<times> event list \<Rightarrow> all_cars \<times> event list" where
  "batch_step dir x st =
     (let r = process_car (fst x) (snd x) dir
      in (if truthy (fst r) then add_car (fst x) (the (fst r)) (fst st) else fst st,
          snd st @ snd r))"

text \<open>
  \<open>process_all_cars\<close>, lines 302 to 345, after the output directory was made and the list
  was read: the cars are processed in order, each with the world it meets, and the combined
  file is written at the end. \<open>AggregateWritten\<close> records that write with its data; when it
  fails the source only prints the error.
\<close>

definition process_all_cars :: "pystr \<Rightarrow> (car_info \<times> site) list \<Rightarrow> event list" where
  "process_all_cars now car_list =
     (if car_list = [] then [EmptyCarList]
      else
        (let st = fold (batch_step now) car_list ([], [])
         in snd st @ [AggregateWritten now (fst st)]))"

text \<open>The AggregateDataset of a batch: \<open>all_cars_data\<close> after the loop.\<close>

definition aggregate :: "pystr \<Rightarrow> (car_info \<times> site) list \<Rightarrow> all_cars" where
  "aggregate now car_list = fst (fold (batch_step now) car_list ([], []))"

section \<open>Predicates and sample inputs for the properties\<close>

text \<open>A stored pair is acceptable when its label and its value are not empty and the value
  is none of the placeholder strings.\<close>

definition entry_ok :: "pystr \<Rightarrow> pystr \<Rightarrow> bool" where
  "entry_ok l v \<longleftrightarrow> l \<noteq> [] \<and> v \<noteq> [] \<and> v \<notin> set placeholders"

definition clean_data :: "car_data \<Rightarrow> bool" where
  "clean_data d \<longleftrightarrow> (\<forall>c ps l v. (c, ps) \<in> set d \<longrightarrow> (l, v) \<in> set ps \<longrightarrow> entry_ok l v)"

definition clean_log :: "event list \<Rightarrow> bool" where
  "clean_log evs \<longleftrightarrow>
     (\<forall>c l v. Extracted c l v \<in> set evs \<or> ExtractedPartial c l v \<in> set evs \<longrightarrow> entry_ok l v)"

definition clean_state :: "car_data \<times> event list \<Rightarrow> bool" where
  "clean_state st \<longleftrightarrow> clean_data (fst st) \<and> clean_log (snd st)"


text \<open>A comparison table with the three car styles A, B and C, as a page that loads.\<close>

definition length_label :: pystr where
  "length_label = [38271, 24230, 40, 109, 109, 41]"

definition three_styles :: "element list" where
  "three_styles = [Text (ascii ''A''), Text (ascii ''B''), Text (ascii ''C'')]"

definition three_names :: "pystr list" where
  "three_names = [ascii ''A'', ascii ''B'', ascii ''C'']"

definition three_empty :: car_data where
  "three_empty = [(ascii ''A'', []), (ascii ''B'', []), (ascii ''C'', [])]"

definition exact_cells :: "element list" where
  "exact_cells = [Text (ascii ''4500''), Text (ascii ''4500''), Text [8212, 8212]]"

definition short_cells :: "element list" where
  "short_cells = [Text (ascii ''1''), Text (ascii ''2'')]"

definition exact_row :: row where
  "exact_row = \<lparr>name_cell = Returns (Some (Text length_label)), value_cells = Returns exact_cells\<rparr>"

definition short_row :: row where
  "short_row = \<lparr>name_cell = Returns (Some (Text (ascii ''W''))), value_cells = Returns short_cells\<rparr>"

definition table_page :: "row list \<Rightarrow> page" where
  "table_page rs =
     \<lparr>ready_load_ok = True, visible = (\<lambda>s. s = ''.car-config''), extract_load_ok = True,
      styles_primary = Returns three_styles, styles_fallback = Returns [],
      rows_primary = Returns rs, rows_fallback = Returns []\<rparr>"

definition both_rows_data :: car_data where
  "both_rows_data =
     [(ascii ''A'', [(length_label, ascii ''4500''), (ascii ''W'', ascii ''1'')]),
      (ascii ''B'', [(length_label, ascii ''4500''), (ascii ''W'', ascii ''2'')]),
      (ascii ''C'', [])]"

definition both_rows_log :: "event list" where
  "both_rows_log =
     [Extracted (ascii ''A'') length_label (ascii ''4500''),
      Extracted (ascii ''B'') length_label (ascii ''4500''),
      Skipped (ascii ''C'') length_label [8212, 8212],
      CountMismatch (ascii ''W'') 2 3,
      ExtractedPartial (ascii ''A'') (ascii ''W'') (ascii ''1''),
      ExtractedPartial (ascii ''B'') (ascii ''W'') (ascii ''2'')]"


text \<open>The car names the loop of lines 133 to 145 appends, one per car style, in order.\<close>

primrec styled_names :: "nat \<Rightarrow> element list \<Rightarrow> pystr list" where
  "styled_names idx [] = []"
| "styled_names idx (car_style # rest) = name_of_style idx car_style # styled_names (Suc idx) rest"

definition twin_styles :: "element list" where
  "twin_styles = [Text (ascii ''A''), Text (ascii ''A''), Text (ascii '' ''), TextNone]"

text \<open>
  Alignment as the specification words it: the value of one cell goes into the dict of one
  column (\<open>put_in_column\<close>), and the equal-count branch reports one message per cell
  (\<open>value_event\<close>).
\<close>

definition put_in_column :: "pystr \<Rightarrow> element \<Rightarrow> (pystr, pystr) pydict \<Rightarrow> (pystr, pystr) pydict" where
  "put_in_column l cell d =
     (case stripped_text cell of
        None \<Rightarrow> d
      | Some v \<Rightarrow> if valid_param l v then AList.update l v d else d)"

definition value_event :: "pystr \<Rightarrow> pystr \<Rightarrow> element \<Rightarrow> event" where
  "value_event l c cell =
     (case stripped_text cell of
        None \<Rightarrow> ValueFailed
      | Some v \<Rightarrow> if valid_param l v then Extracted c l v else Skipped c l v)"

definition exact_result :: "car_data \<times> event list" where
  "exact_result =
     ([(ascii ''A'', [(length_label, ascii ''4500'')]),
       (ascii ''B'', [(length_label, ascii ''4500'')]),
       (ascii ''C'', [])],
      [Extracted (ascii ''A'') length_label (ascii ''4500''),
       Extracted (ascii ''B'') length_label (ascii ''4500''),
       Skipped (ascii ''C'') length_label [8212, 8212]])"


text \<open>A table in which two car styles carry the same text, with one row of two values; the
  cells that go with one car name, in order.\<close>

definition pair_cells :: "element list" where
  "pair_cells = [Text (ascii ''1''), Text (ascii ''2'')]"

definition pair_page :: page where
  "pair_page =
     \<lparr>ready_load_ok = True, visible = (\<lambda>s. s = ''.car-config''), extract_load_ok = True,
      styles_primary = Returns [Text (ascii ''A''), Text (ascii ''A'')], styles_fallback = Returns [],
      rows_primary = Returns [\<lparr>name_cell = Returns (Some (Text (ascii ''L''))),
                               value_cells = Returns pair_cells\<rparr>],
      rows_fallback = Returns []\<rparr>"

definition column_cells :: "pystr list \<Rightarrow> element list \<Rightarrow> pystr \<Rightarrow> element list" where
  "column_cells names cells k = map snd (filter (\<lambda>(n, c). n = k) (zip names cells))"


text \<open>Events by kind: a \<open>page.goto\<close> call; the messages of \<open>extract_car_info\<close>.\<close>

fun is_goto :: "event \<Rightarrow> bool" where
  "is_goto (Goto u) = True"
| "is_goto e = False"

fun extraction_event :: "event \<Rightarrow> bool" where
  "extraction_event NoCarStyles = True"
| "extraction_event NoParamRows = True"
| "extraction_event (Extracted c l v) = True"
| "extraction_event (Skipped c l v) = True"
| "extraction_event ValueFailed = True"
| "extraction_event (CountMismatch l m n) = True"
| "extraction_event (ExtractedPartial c l v) = True"
| "extraction_event PartialValueFailed = True"
| "extraction_event RowFailed = True"
| "extraction_event NothingExtracted = True"
| "extraction_event ExtractError = True"
| "extraction_event e = False"

text \<open>\<open>if not url\<close> of line 291 is false for this entry.\<close>

definition has_url :: "car_info \<Rightarrow> bool" where
  "has_url info = (case map_of info ''url'' of None \<Rightarrow> False | Some u \<Rightarrow> u \<noteq> [])"

text \<open>Sample worlds: every \<open>page.goto\<close> ends the same way; the browser starts.\<close>

definition steady_site :: "attempt \<Rightarrow> bool \<Rightarrow> site" where
  "steady_site a ok = \<lparr>init_result = InitOk, context_ok = True, attempts = (\<lambda>k. a), write_ok = ok\<rparr>"

definition placeholder_cells :: "element list" where
  "placeholder_cells = [Text (ascii ''/''), Text (ascii ''N/A''), Text [8212, 8212]]"

definition placeholder_row :: row where
  "placeholder_row =
     \<lparr>name_cell = Returns (Some (Text length_label)), value_cells = Returns placeholder_cells\<rparr>"

definition placeholder_log :: "event list" where
  "placeholder_log =
     [Skipped (ascii ''A'') length_label (ascii ''/''),
      Skipped (ascii ''B'') length_label (ascii ''N/A''),
      Skipped (ascii ''C'') length_label [8212, 8212]]"

definition blank_page :: page where
  "blank_page =
     \<lparr>ready_load_ok = True, visible = (\<lambda>s. False), extract_load_ok = True,
      styles_primary = Returns three_styles, styles_fallback = Returns [],
      rows_primary = Returns [exact_row], rows_fallback = Returns []\<rparr>"

definition sample_dir :: pystr where
  "sample_dir = ascii ''202611040900''"

definition sample_info :: car_info where
  "sample_info = [(''name'', ascii ''Brand''), (''subname'', ascii ''Model''), (''url'', ascii ''http://cars/1'')]"

definition other_info :: car_info where
  "other_info = [(''name'', ascii ''Brand''), (''subname'', ascii ''Other''), (''url'', ascii ''http://cars/2'')]"

definition no_url_info :: car_info where
  "no_url_info = [(''name'', ascii ''Brand''), (''subname'', ascii ''Model'')]"

definition sample_spider :: spider where
  "sample_spider =
     CarSpider sample_dir (ascii ''http://cars/1'') (Some (ascii ''Brand'')) (Some (ascii ''Model''))
       (Some sample_dir)"

text \<open>The browser is launched or closed.\<close>

fun browser_event :: "event \<Rightarrow> bool" where
  "browser_event BrowserLaunched = True"
| "browser_event BrowserClosed = True"
| "browser_event e = False"

definition two_cars :: "(car_info \<times> site) list" where
  "two_cars = [(sample_info, steady_site GotoRaises True), (other_info, steady_site GotoRaises True)]"

definition three_cars :: "(car_info \<times> site) list" where
  "three_cars =
     [(sample_info, steady_site GotoRaises True), (no_url_info, steady_site GotoRaises True),
      (other_info, steady_site (Arrived blank_page) True)]"

section \<open>Stored values are never empty and never placeholders\<close>

lemma in_set_update:
  "x \<in> set (AList.update k v al) \<Longrightarrow> x = (k, v) \<or> x \<in> set al"
  by (induction al) (auto split: if_splits)

lemma valid_param_entry_ok: "valid_param l v \<Longrightarrow> entry_ok l v"
  by (simp add: valid_param_def entry_ok_def)

lemma clean_set_param:
  assumes "clean_data d" and "valid_param l v" and "set_param c l v d = Some d'"
  shows "clean_data d'"
proof -
  from assms(3) obtain ps where ps: "map_of d c = Some ps"
    and d': "d' = AList.update c (AList.update l v ps) d"
    by (cases "map_of d c") (simp_all add: set_param_def)
  from ps have mem: "(c, ps) \<in> set d" by (rule map_of_SomeD)
  have old: "entry_ok l' v'" if "(c', ps') \<in> set d" "(l', v') \<in> set ps'" for c' ps' l' v'
    using assms(1) that unfolding clean_data_def by blast
  show ?thesis
    unfolding clean_data_def
  proof (intro allI impI)
    fix c' ps' l' v'
    assume a: "(c', ps') \<in> set d'" and b: "(l', v') \<in> set ps'"
    from a have "(c', ps') = (c, AList.update l v ps) \<or> (c', ps') \<in> set d"
      unfolding d' by (rule in_set_update)
    then show "entry_ok l' v'"
    proof
      assume "(c', ps') = (c, AList.update l v ps)"
      then have "(l', v') \<in> set (AList.update l v ps)" using b by simp
      then have "(l', v') = (l, v) \<or> (l', v') \<in> set ps"
        by (rule in_set_update)
      then show ?thesis
      proof
        assume "(l', v') = (l, v)"
        then show ?thesis using assms(2) by (simp add: valid_param_entry_ok)
      next
        assume "(l', v') \<in> set ps"
        then show ?thesis using old [OF mem] by simp
      qed
    next
      assume "(c', ps') \<in> set d"
      then show ?thesis using b by (rule old)
    qed
  qed
qed

lemma clean_log_append:
  "clean_log (xs @ ys) \<longleftrightarrow> clean_log xs \<and> clean_log ys"
  by (auto simp: clean_log_def)

lemma clean_log_single_other:
  "clean_log [ValueFailed]" "clean_log [PartialValueFailed]" "clean_log [RowFailed]"
  "clean_log [Skipped c l v]" "clean_log [CountMismatch l m n]"
  by (simp_all add: clean_log_def)

lemma clean_log_only: "clean_state st \<Longrightarrow> clean_log evs \<Longrightarrow> clean_state (fst st, snd st @ evs)"
  by (simp add: clean_state_def clean_log_append)

lemma clean_put_value: 
  assumes "clean_state st" shows "clean_state (put_value l c cell st)"
proof (cases "stripped_text cell")
  case None
  then show ?thesis using assms
    by (simp add: put_value_def clean_log_only clean_log_single_other)
next
  case (Some v)
  show ?thesis
  proof (cases "valid_param l v")
    case False
    then show ?thesis using assms Some
      by (simp add: put_value_def clean_log_only clean_log_single_other)
  next
    case True
    show ?thesis
    proof (cases "set_param c l v (fst st)")
      case None
      then show ?thesis using assms Some True
        by (simp add: put_value_def clean_log_only clean_log_single_other)
    next
      case (Some d)
      have "clean_data d"
        using clean_set_param [OF _ True Some] assms by (simp add: clean_state_def)
      moreover have "clean_log (snd st @ [Extracted c l v])"
        using assms True by (simp add: clean_state_def clean_log_append clean_log_def valid_param_entry_ok)
      ultimately show ?thesis using \<open>stripped_text cell = Some v\<close> True Some
        by (simp add: put_value_def clean_state_def)
    qed
  qed
qed

lemma clean_put_partial: 
  assumes "clean_state st" shows "clean_state (put_partial l c cell st)"
proof (cases "stripped_text cell")
  case None
  then show ?thesis using assms
    by (simp add: put_partial_def clean_log_only clean_log_single_other)
next
  case (Some v)
  show ?thesis
  proof (cases "valid_param l v")
    case False
    then show ?thesis using assms Some
      by (simp add: put_partial_def)
  next
    case True
    show ?thesis
    proof (cases "set_param c l v (fst st)")
      case None
      then show ?thesis using assms Some True
        by (simp add: put_partial_def clean_log_only clean_log_single_other)
    next
      case (Some d)
      have "clean_data d"
        using clean_set_param [OF _ True Some] assms by (simp add: clean_state_def)
      moreover have "clean_log (snd st @ [ExtractedPartial c l v])"
        using assms True by (simp add: clean_state_def clean_log_append clean_log_def valid_param_entry_ok)
      ultimately show ?thesis using \<open>stripped_text cell = Some v\<close> True Some
        by (simp add: put_partial_def clean_state_def)
    qed
  qed
qed

lemma clean_partial_loop:
  "clean_state st \<Longrightarrow> clean_state (partial_loop names l i cells st)"
  by (induction cells arbitrary: i st) (simp_all add: clean_put_partial)

lemma clean_fold_put_value:
  "clean_state st \<Longrightarrow>
   clean_state (fold (\<lambda>(car_name, value_cell). put_value l car_name value_cell) zs st)"
proof (induction zs arbitrary: st)
  case Nil
  then show ?case by simp
next
  case (Cons z zs)
  obtain n cell where z: "z = (n, cell)" by (cases z)
  have "clean_state (put_value l n cell st)" using Cons.prems by (rule clean_put_value)
  then show ?case using Cons.IH z by simp
qed

lemma clean_align_row: 
  assumes "clean_state st" shows "clean_state (align_row names l cells st)"
proof (cases "length cells = length names")
  case True
  then show ?thesis using assms by (simp add: align_row_def clean_fold_put_value)
next
  case False
  have "clean_state (fst st, snd st @ [CountMismatch l (length cells) (length names)])"
    using assms by (simp add: clean_log_only clean_log_single_other)
  then show ?thesis using False by (simp add: align_row_def clean_partial_loop)
qed

lemma clean_row_failed: "clean_state st \<Longrightarrow> clean_state (fst st, snd st @ [RowFailed])"
  by (simp add: clean_log_only clean_log_single_other)

lemma clean_process_row: "clean_state st \<Longrightarrow> clean_state (process_row names r st)"
  unfolding process_row_def
  by (simp add: clean_align_row clean_row_failed split: outcome.splits option.splits)

lemma clean_fold_rows: "clean_state st \<Longrightarrow> clean_state (fold (process_row names) rs st)"
  by (induction rs arbitrary: st) (simp_all add: clean_process_row)

lemma clean_update_empty: "clean_data d \<Longrightarrow> clean_data (AList.update k [] d)"
  unfolding clean_data_def using in_set_update by fastforce

lemma clean_collect_names:
  "clean_data (snd st) \<Longrightarrow> clean_data (snd (collect_names idx styles st))"
  by (induction idx styles st rule: collect_names.induct) (simp_all add: clean_update_empty)

lemma clean_extract_rows:
  "clean_data d \<Longrightarrow> extract_rows names d rs = (Some data, log) \<Longrightarrow> clean_state (data, log)"
  using clean_fold_rows [of "(d, [])" names rs]
  by (auto simp: extract_rows_def Let_def clean_state_def clean_log_def split: if_splits)

lemma clean_extract_params:
  "clean_data d \<Longrightarrow> extract_params p names d = (Some data, log) \<Longrightarrow> clean_state (data, log)"
  by (auto simp: extract_params_def split: outcome.splits if_splits dest: clean_extract_rows)

lemma clean_data_Nil: "clean_data []"
  by (simp add: clean_data_def)

lemma clean_extract_styles:
  assumes "extract_styles p styles = (Some data, log)"
  shows "clean_state (data, log)"
proof -
  have "clean_data (snd (collect_names 1 styles ([], [])))"
    by (rule clean_collect_names) (simp add: clean_data_Nil)
  then show ?thesis
    using assms clean_extract_params unfolding extract_styles_def Let_def by blast
qed

lemma clean_extract_car_info:
  "extract_car_info p = (Some data, log) \<Longrightarrow> clean_state (data, log)"
  by (auto simp: extract_car_info_def split: outcome.splits if_splits dest: clean_extract_styles)

lemmas extract_defs = ascii_def strip_def is_space_def valid_param_def placeholders_def
  set_param_def put_value_def put_partial_def align_row_def process_row_def extract_rows_def
  extract_params_def extract_styles_def extract_car_info_def name_of_style_def

lemmas sample_defs = length_label_def three_styles_def three_names_def three_empty_def
  exact_cells_def short_cells_def exact_row_def short_row_def table_page_def
  both_rows_data_def both_rows_log_def

lemma both_rows_extracted:
  "extract_car_info (table_page [exact_row, short_row]) = (Some both_rows_data, both_rows_log)"
  by (simp add: extract_defs sample_defs)

text \<open>
  Claim C1. Whenever \<open>extract_car_info\<close> returns a result, every pair stored in it has a
  non-empty label and a non-empty value that is none of the placeholders; the same holds for
  every pair reported as written by the equal-count branch (\<open>Extracted\<close>) and by the
  mismatched-count branch (\<open>ExtractedPartial\<close>).
\<close>

theorem extraction_result_clean:
  assumes "extract_car_info p = (Some data, log)"
  shows "(\<forall>c ps l v. (c, ps) \<in> set data \<longrightarrow> (l, v) \<in> set ps \<longrightarrow>
            l \<noteq> [] \<and> v \<noteq> [] \<and> v \<notin> set placeholders) \<and>
         (\<forall>c l v. Extracted c l v \<in> set log \<or> ExtractedPartial c l v \<in> set log \<longrightarrow>
            l \<noteq> [] \<and> v \<noteq> [] \<and> v \<notin> set placeholders)"
  using clean_extract_car_info [OF assms]
  unfolding clean_state_def clean_data_def clean_log_def entry_ok_def by simp

theorem extraction_result_clean_witness:
  "extract_car_info (table_page [exact_row, short_row]) = (Some both_rows_data, both_rows_log) \<and>
   (ascii ''B'', [(length_label, ascii ''4500''), (ascii ''W'', ascii ''2'')]) \<in> set both_rows_data \<and>
   length_label \<noteq> [] \<and> ascii ''4500'' \<noteq> [] \<and> ascii ''4500'' \<notin> set placeholders \<and>
   ExtractedPartial (ascii ''B'') (ascii ''W'') (ascii ''2'') \<in> set both_rows_log \<and>
   ascii ''W'' \<noteq> [] \<and> ascii ''2'' \<noteq> [] \<and> ascii ''2'' \<notin> set placeholders"
proof -
  have m1: "(ascii ''B'', [(length_label, ascii ''4500''), (ascii ''W'', ascii ''2'')])
              \<in> set both_rows_data"
    by (simp add: both_rows_data_def)
  have m2: "(length_label, ascii ''4500'')
              \<in> set [(length_label, ascii ''4500''), (ascii ''W'', ascii ''2'')]"
    by simp
  have m3: "ExtractedPartial (ascii ''B'') (ascii ''W'') (ascii ''2'') \<in> set both_rows_log"
    by (simp add: both_rows_log_def)
  from extraction_result_clean [OF both_rows_extracted] m1 m2 m3 both_rows_extracted
  show ?thesis by blast
qed

section \<open>The car names of a page\<close>

lemma placeholder_name_nonempty: "placeholder_name idx \<noteq> []"
  by (simp add: placeholder_name_def)

lemma name_of_style_nonempty: "name_of_style idx s \<noteq> []"
  by (simp add: name_of_style_def placeholder_name_nonempty split: option.split)

lemma fst_collect_names:
  "fst (collect_names idx styles (names, data)) = names @ styled_names idx styles"
  by (induction styles arbitrary: idx names data) simp_all

lemma keys_collect_names:
  "fst ` set (snd (collect_names idx styles (names, data))) = fst ` set data \<union> set (styled_names idx styles)"
  by (induction styles arbitrary: idx names data) (simp_all add: AList.dom_update Un_commute insert_commute)

lemma length_styled_names: "length (styled_names idx styles) = length styles"
  by (induction styles arbitrary: idx) simp_all

lemma nth_styled_names:
  "i < length styles \<Longrightarrow> styled_names idx styles ! i = name_of_style (idx + i) (styles ! i)"
proof (induction styles arbitrary: idx i)
  case Nil
  then show ?case by simp
next
  case (Cons s ss)
  show ?case
  proof (cases i)
    case 0
    then show ?thesis by simp
  next
    case (Suc j)
    with Cons.prems have "j < length ss" by simp
    from Cons.IH [OF this, of "Suc idx"] Suc show ?thesis by simp
  qed
qed

lemma twin_names:
  "fst (collect_names 1 twin_styles ([], [])) =
     [ascii ''A'', ascii ''A'', placeholder_name 3, placeholder_name 4]"
  by (simp add: twin_styles_def name_of_style_def strip_def is_space_def ascii_def)
    (simp add: eval_nat_numeral)

text \<open>
  Claim C2, as the code has it. The list \<open>car_names\<close> built by \<open>extract_car_info\<close> has one
  name per car style, in order, and no name is empty: a car style whose stripped text is empty,
  or whose text cannot be read, gets the synthesized name with its 1-based position, and every
  other car style keeps its stripped text. A text that repeats an earlier one is kept as it is.
\<close>

theorem column_names_nonempty:
  "length (fst (collect_names 1 styles ([], []))) = length styles \<and>
   (\<forall>i<length styles.
      fst (collect_names 1 styles ([], [])) ! i \<noteq> [] \<and>
      fst (collect_names 1 styles ([], [])) ! i =
        (case stripped_text (styles ! i) of
           None \<Rightarrow> placeholder_name (i + 1)
         | Some s \<Rightarrow> if s = [] then placeholder_name (i + 1) else s))"
proof -
  have eq: "fst (collect_names 1 styles ([], [])) = styled_names 1 styles"
    by (simp add: fst_collect_names)
  have nth: "styled_names 1 styles ! i = name_of_style (i + 1) (styles ! i)"
    if "i < length styles" for i
    using nth_styled_names [OF that, of 1] by (simp add: add.commute)
  have "styled_names 1 styles ! i \<noteq> [] \<and>
        styled_names 1 styles ! i =
          (case stripped_text (styles ! i) of
             None \<Rightarrow> placeholder_name (i + 1)
           | Some s \<Rightarrow> if s = [] then placeholder_name (i + 1) else s)"
    if "i < length styles" for i
    unfolding nth [OF that]
    by (rule conjI, rule name_of_style_nonempty, rule name_of_style_def)
  then show ?thesis
    unfolding eq using length_styled_names [of 1 styles] by blast
qed

theorem column_names_nonempty_witness:
  "2 < length twin_styles \<and>
   length (fst (collect_names 1 twin_styles ([], []))) = length twin_styles \<and>
   fst (collect_names 1 twin_styles ([], [])) ! 2 \<noteq> [] \<and>
   fst (collect_names 1 twin_styles ([], [])) ! 2 = placeholder_name 3"
proof -
  have h: "2 < length twin_styles" by (simp add: twin_styles_def)
  have t: "stripped_text (twin_styles ! 2) = Some []"
    by (simp add: twin_styles_def strip_def is_space_def ascii_def)
  from column_names_nonempty [of twin_styles] h
  have "fst (collect_names 1 twin_styles ([], [])) ! 2 \<noteq> [] \<and>
        fst (collect_names 1 twin_styles ([], [])) ! 2 =
          (case stripped_text (twin_styles ! 2) of
             None \<Rightarrow> placeholder_name (2 + 1)
           | Some s \<Rightarrow> if s = [] then placeholder_name (2 + 1) else s)"
    by blast
  then have "fst (collect_names 1 twin_styles ([], [])) ! 2 \<noteq> [] \<and>
        fst (collect_names 1 twin_styles ([], [])) ! 2 = placeholder_name 3"
    unfolding t by (simp add: placeholder_name_nonempty)
  then show ?thesis using h column_names_nonempty [of twin_styles] by blast
qed

text \<open>
  Claim C2 as stated asks for pairwise different names. Two car styles with the same text give
  the same name twice.
\<close>

theorem column_names_unique_counterexample:
  "\<not> distinct (fst (collect_names 1 twin_styles ([], [])))"
  unfolding twin_names by simp

section \<open>Alignment of a row with the car names\<close>

subsection \<open>One cell\<close>

lemma fst_put_value:
  "fst (put_value l n c st) =
     (case map_of (fst st) n of
        None \<Rightarrow> fst st
      | Some d \<Rightarrow> AList.update n (put_in_column l c d) (fst st))"
proof (cases "map_of (fst st) n")
  case None
  then show ?thesis
    by (simp add: put_value_def set_param_def split: option.split)
next
  case (Some d)
  then have "AList.update n d (fst st) = fst st" by (rule AList.update_triv)
  then show ?thesis using Some
    by (simp add: put_value_def set_param_def put_in_column_def split: option.split)
qed


lemma snd_put_value:
  "n \<in> fst ` set (fst st) \<Longrightarrow> snd (put_value l n c st) = snd st @ [value_event l n c]"
proof -
  assume "n \<in> fst ` set (fst st)"
  then obtain d where "map_of (fst st) n = Some d"
    by (metis domD dom_map_of_conv_image_fst)
  then show ?thesis
    by (simp add: put_value_def set_param_def value_event_def split: option.split)
qed

lemma keys_put_value: "map fst (fst (put_value l n c st)) = map fst (fst st)"
proof (cases "map_of (fst st) n")
  case None
  then show ?thesis by (simp add: fst_put_value)
next
  case (Some d)
  then have "n \<in> set (map fst (fst st))"
    by (metis domI dom_map_of_conv_image_fst set_map)
  then show ?thesis using Some by (simp add: fst_put_value AList.update_keys)
qed

lemma map_of_put_value:
  "map_of (fst (put_value l n c st)) k =
     (if k = n then map_option (put_in_column l c) (map_of (fst st) n) else map_of (fst st) k)"
  by (cases "map_of (fst st) n") (simp_all add: fst_put_value AList.update_conv')


subsection \<open>A list of (car name, cell) pairs\<close>

lemma keys_fold_put_value:
  "map fst (fst (fold (\<lambda>(n, c). put_value l n c) zs st)) = map fst (fst st)"
  by (induction zs arbitrary: st) (simp_all add: keys_put_value split: prod.split)

lemma snd_fold_put_value:
  "fst ` set zs \<subseteq> fst ` set (fst st) \<Longrightarrow>
   snd (fold (\<lambda>(n, c). put_value l n c) zs st) = snd st @ map (\<lambda>(n, c). value_event l n c) zs"
proof (induction zs arbitrary: st)
  case Nil
  then show ?case by simp
next
  case (Cons z zs)
  obtain n c where z: "z = (n, c)" by (cases z)
  have keys: "fst ` set (fst (put_value l n c st)) = fst ` set (fst st)"
    using keys_put_value [of l n c st] by (metis set_map)
  have mem: "n \<in> fst ` set (fst st)" using Cons.prems z by auto
  have "fst ` set zs \<subseteq> fst ` set (fst (put_value l n c st))"
    using Cons.prems keys by auto
  from Cons.IH [OF this] show ?case
    using z by (simp add: snd_put_value [OF mem])
qed

lemma untouched_fold_put_value:
  "k \<notin> fst ` set zs \<Longrightarrow>
   map_of (fst (fold (\<lambda>(n, c). put_value l n c) zs st)) k = map_of (fst st) k"
proof (induction zs arbitrary: st)
  case Nil
  then show ?case by simp
next
  case (Cons z zs)
  obtain n c where z: "z = (n, c)" by (cases z)
  from Cons.prems z have "k \<noteq> n" and "k \<notin> fst ` set zs" by auto
  then show ?case using Cons.IH [of "put_value l n c st"] z
    by (simp add: map_of_put_value)
qed

lemma lookup_fold_put_value:
  "distinct (map fst zs) \<Longrightarrow> (n, c) \<in> set zs \<Longrightarrow>
   map_of (fst (fold (\<lambda>(n, c). put_value l n c) zs st)) n =
     map_option (put_in_column l c) (map_of (fst st) n)"
proof (induction zs arbitrary: st)
  case Nil
  then show ?case by simp
next
  case (Cons z zs)
  obtain n' c' where z: "z = (n', c')" by (cases z)
  show ?case
  proof (cases "(n, c) = z")
    case True
    then have nz: "n' = n" "c' = c" using z by auto
    have "n \<notin> fst ` set zs" using Cons.prems(1) z nz by auto
    from untouched_fold_put_value [OF this] show ?thesis
      using z nz by (simp add: map_of_put_value)
  next
    case False
    then have mem: "(n, c) \<in> set zs" using Cons.prems(2) by auto
    then have "n \<in> fst ` set zs" by force
    then have "n \<noteq> n'" using Cons.prems(1) z by auto
    moreover have "distinct (map fst zs)" using Cons.prems(1) by simp
    ultimately show ?thesis
      using Cons.IH [OF _ mem, of "put_value l n' c' st"] z
      by (simp add: map_of_put_value)
  qed
qed



subsection \<open>The loop of the mismatched-count branch is a truncated zip\<close>




subsection \<open>Rows\<close>

lemma exact_row_aligned:
  "align_row three_names length_label exact_cells (three_empty, []) = exact_result"
  by (simp add: extract_defs sample_defs exact_result_def)


lemma nth_zip_mem:
  "i < length xs \<Longrightarrow> i < length ys \<Longrightarrow> (xs ! i, ys ! i) \<in> set (zip xs ys)"
  by (metis length_zip min_less_iff_conj nth_mem nth_zip)

lemma distinct_fst_zip: "distinct xs \<Longrightarrow> distinct (map fst (zip xs ys))"
  by (simp add: map_fst_zip_take)

lemma column_fold_put_value:
  "map_of (fst (fold (\<lambda>(n, c). put_value l n c) zs st)) k =
     map_option (fold (put_in_column l) (map snd (filter (\<lambda>(n, c). n = k) zs))) (map_of (fst st) k)"
proof (induction zs arbitrary: st)
  case Nil
  then show ?case by (simp add: option.map_ident)
next
  case (Cons z zs)
  obtain n c where z: "z = (n, c)" by (cases z)
  show ?case
  proof (cases "k = n")
    case True
    then show ?thesis
      using Cons.IH [of "put_value l n c st"] z
      by (simp add: map_of_put_value option.map_comp comp_def)
  next
    case False
    then show ?thesis
      using Cons.IH [of "put_value l n c st"] z
      by (simp add: map_of_put_value)
  qed
qed

text \<open>
  Claim C3, as the code has it. In a row with as many value cells as there are car names, the
  cells are taken in step with the names, in order: cell \<open>i\<close>, if it passes the test, is
  stored under the row's label in the dict of the column named \<open>car_names[i]\<close>, and is
  dropped otherwise. So every column keeps its place, and the dict of a column is the old one
  after the cells of the positions that carry its name, in order; the messages of the row are,
  in order, the message for name \<open>i\<close> and cell \<open>i\<close>. When the names are different,
  column \<open>i\<close> is changed by cell \<open>i\<close> alone; when a name repeats, its positions share one
  dict and a later value that passes the test replaces an earlier one. With three columns, the
  label of the length row and the values 4500, 4500 and the dash placeholder, columns 1 and 2
  get the entry and column 3 gets none.
\<close>

theorem exact_alignment:
  assumes "length cells = length names"
  shows "map fst (fst (align_row names l cells (data, log))) = map fst data \<and>
         (\<forall>k. map_of (fst (align_row names l cells (data, log))) k =
                map_option (fold (put_in_column l) (column_cells names cells k)) (map_of data k)) \<and>
         (set names \<subseteq> fst ` set data \<longrightarrow>
            snd (align_row names l cells (data, log)) =
              log @ map (\<lambda>(n, c). value_event l n c) (zip names cells)) \<and>
         (distinct names \<longrightarrow>
            (\<forall>i<length names.
               map_of (fst (align_row names l cells (data, log))) (names ! i) =
                 map_option (put_in_column l (cells ! i)) (map_of data (names ! i)))) \<and>
         align_row three_names length_label exact_cells (three_empty, []) = exact_result"
proof -
  have row: "align_row names l cells (data, log) =
               fold (\<lambda>(n, c). put_value l n c) (zip names cells) (data, log)"
    using assms by (simp add: align_row_def)
  have c1: "map fst (fst (align_row names l cells (data, log))) = map fst data"
    unfolding row by (simp add: keys_fold_put_value)
  have c2: "map_of (fst (align_row names l cells (data, log))) k =
                map_option (fold (put_in_column l) (column_cells names cells k)) (map_of data k)" for k
    unfolding row column_cells_def by (simp add: column_fold_put_value)
  have c3: "snd (align_row names l cells (data, log)) =
              log @ map (\<lambda>(n, c). value_event l n c) (zip names cells)"
    if sub: "set names \<subseteq> fst ` set data"
  proof -
    have "fst ` set (zip names cells) \<subseteq> fst ` set (fst (data, log))"
      using assms sub by (simp add: map_fst_zip flip: set_map)
    from snd_fold_put_value [OF this, of l] show ?thesis
      unfolding row by simp
  qed
  have c4: "map_of (fst (align_row names l cells (data, log))) (names ! i) =
                 map_option (put_in_column l (cells ! i)) (map_of data (names ! i))"
    if d: "distinct names" and i: "i < length names" for i
  proof -
    have mem: "(names ! i, cells ! i) \<in> set (zip names cells)"
      using i assms by (simp add: nth_zip_mem)
    from lookup_fold_put_value [OF distinct_fst_zip [OF d] mem, of l "(data, log)"]
    show ?thesis unfolding row by simp
  qed
  show ?thesis
    using c1 c2 c3 c4 exact_row_aligned by blast
qed

theorem exact_alignment_witness:
  "length exact_cells = length three_names \<and> set three_names \<subseteq> fst ` set three_empty \<and>
   distinct three_names \<and>
   map fst (fst (align_row three_names length_label exact_cells (three_empty, []))) =
     map fst three_empty \<and>
   snd (align_row three_names length_label exact_cells (three_empty, [])) =
     [Extracted (ascii ''A'') length_label (ascii ''4500''),
      Extracted (ascii ''B'') length_label (ascii ''4500''),
      Skipped (ascii ''C'') length_label [8212, 8212]] \<and>
   map_of (fst (align_row three_names length_label exact_cells (three_empty, []))) (ascii ''A'') =
     Some [(length_label, ascii ''4500'')] \<and>
   map_of (fst (align_row three_names length_label exact_cells (three_empty, []))) (ascii ''B'') =
     Some [(length_label, ascii ''4500'')] \<and>
   map_of (fst (align_row three_names length_label exact_cells (three_empty, []))) (ascii ''C'') =
     Some []"
proof -
  have h1: "length exact_cells = length three_names"
    by (simp add: exact_cells_def three_names_def)
  have h2: "set three_names \<subseteq> fst ` set three_empty"
    by (simp add: three_names_def three_empty_def)
  have h3: "distinct three_names"
    by (simp add: three_names_def ascii_def)
  note inst = exact_alignment [OF h1, of length_label three_empty "[]"]
  from inst have k: "map fst (fst (align_row three_names length_label exact_cells (three_empty, []))) =
     map fst three_empty"
    by blast
  from inst h2 have "snd (align_row three_names length_label exact_cells (three_empty, [])) =
      [] @ map (\<lambda>(n, c). value_event length_label n c) (zip three_names exact_cells)"
    by blast
  then have e: "snd (align_row three_names length_label exact_cells (three_empty, [])) =
     [Extracted (ascii ''A'') length_label (ascii ''4500''),
      Extracted (ascii ''B'') length_label (ascii ''4500''),
      Skipped (ascii ''C'') length_label [8212, 8212]]"
    by (simp add: value_event_def three_names_def exact_cells_def length_label_def
        valid_param_def placeholders_def strip_def is_space_def ascii_def)
  from inst h3 have pos: "\<forall>i<length three_names.
      map_of (fst (align_row three_names length_label exact_cells (three_empty, []))) (three_names ! i) =
        map_option (put_in_column length_label (exact_cells ! i)) (map_of three_empty (three_names ! i))"
    by blast
  have l: "(0::nat) < length three_names" "(1::nat) < length three_names" "(2::nat) < length three_names"
    by (simp_all add: three_names_def)
  from pos l(1) have "map_of (fst (align_row three_names length_label exact_cells (three_empty, [])))
      (three_names ! 0) =
        map_option (put_in_column length_label (exact_cells ! 0)) (map_of three_empty (three_names ! 0))"
    by blast
  then have a: "map_of (fst (align_row three_names length_label exact_cells (three_empty, []))) (ascii ''A'') =
     Some [(length_label, ascii ''4500'')]"
    by (simp add: put_in_column_def three_names_def three_empty_def exact_cells_def length_label_def
        valid_param_def placeholders_def strip_def is_space_def ascii_def)
  from pos l(2) have "map_of (fst (align_row three_names length_label exact_cells (three_empty, [])))
      (three_names ! 1) =
        map_option (put_in_column length_label (exact_cells ! 1)) (map_of three_empty (three_names ! 1))"
    by blast
  then have b: "map_of (fst (align_row three_names length_label exact_cells (three_empty, []))) (ascii ''B'') =
     Some [(length_label, ascii ''4500'')]"
    by (simp add: put_in_column_def three_names_def three_empty_def exact_cells_def length_label_def
        valid_param_def placeholders_def strip_def is_space_def ascii_def)
  from pos l(3) have "map_of (fst (align_row three_names length_label exact_cells (three_empty, [])))
      (three_names ! 2) =
        map_option (put_in_column length_label (exact_cells ! 2)) (map_of three_empty (three_names ! 2))"
    by blast
  then have c: "map_of (fst (align_row three_names length_label exact_cells (three_empty, []))) (ascii ''C'') =
     Some []"
    by (simp add: put_in_column_def three_names_def three_empty_def exact_cells_def length_label_def
        valid_param_def placeholders_def strip_def is_space_def ascii_def)
  from h1 h2 h3 k e a b c show ?thesis by blast
qed

lemma pair_page_extracted:
  "extract_car_info pair_page =
     (Some [(ascii ''A'', [(ascii ''L'', ascii ''2'')])],
      [Extracted (ascii ''A'') (ascii ''L'') (ascii ''1''),
       Extracted (ascii ''A'') (ascii ''L'') (ascii ''2'')])"
  by (simp add: extract_defs pair_page_def pair_cells_def)

text \<open>
  Claim C3 as stated has the value at index \<open>i\<close> with column \<open>i\<close> for every \<open>i\<close>. On a
  page whose two car styles carry the same text, the row with the values 1 and 2 has as many
  cells as names, and column 1 ends with the value 2: the value at index 0 passed the test, was
  stored, and was replaced.
\<close>

theorem exact_alignment_counterexample:
  "fst (collect_names 1 [Text (ascii ''A''), Text (ascii ''A'')] ([], [])) = [ascii ''A'', ascii ''A''] \<and>
   length pair_cells = length [ascii ''A'', ascii ''A''] \<and>
   stripped_text (pair_cells ! 0) = Some (ascii ''1'') \<and>
   valid_param (ascii ''L'') (ascii ''1'') \<and>
   map_of (fst (align_row [ascii ''A'', ascii ''A''] (ascii ''L'') pair_cells ([(ascii ''A'', [])], [])))
     ([ascii ''A'', ascii ''A''] ! 0) = Some [(ascii ''L'', ascii ''2'')] \<and>
   ascii ''2'' \<noteq> ascii ''1'' \<and>
   extract_car_info pair_page =
     (Some [(ascii ''A'', [(ascii ''L'', ascii ''2'')])],
      [Extracted (ascii ''A'') (ascii ''L'') (ascii ''1''),
       Extracted (ascii ''A'') (ascii ''L'') (ascii ''2'')])"
proof -
  have a: "fst (collect_names 1 [Text (ascii ''A''), Text (ascii ''A'')] ([], [])) =
      [ascii ''A'', ascii ''A'']"
    by (simp add: name_of_style_def strip_def is_space_def ascii_def)
  have b: "length pair_cells = length [ascii ''A'', ascii ''A'']"
    by (simp add: pair_cells_def)
  have c: "stripped_text (pair_cells ! 0) = Some (ascii ''1'')"
    by (simp add: pair_cells_def strip_def is_space_def ascii_def)
  have d: "valid_param (ascii ''L'') (ascii ''1'')"
    by (simp add: valid_param_def placeholders_def ascii_def)
  have e: "map_of (fst (align_row [ascii ''A'', ascii ''A''] (ascii ''L'') pair_cells
      ([(ascii ''A'', [])], []))) ([ascii ''A'', ascii ''A''] ! 0) = Some [(ascii ''L'', ascii ''2'')]"
    by (simp add: extract_defs pair_cells_def)
  have f: "ascii ''2'' \<noteq> ascii ''1''"
    by (simp add: ascii_def)
  from a b c d e f pair_page_extracted show ?thesis by blast
qed




section \<open>Runs on sample pages\<close>

lemmas run_defs = run_def max_retries_def save_data_def
  truthy_def attempt_events_def CarSpider_def or_default_def steady_site_def

lemma placeholder_row_extracted:
  "extract_car_info (table_page [placeholder_row]) = (Some three_empty, placeholder_log)"
  by (simp add: extract_defs sample_defs placeholder_row_def placeholder_cells_def placeholder_log_def)

lemma table_page_ready: "wait_for_page_load (table_page rs)"
  by (simp add: wait_for_page_load_def selectors_def table_page_def)

lemma blank_page_not_ready: "\<not> wait_for_page_load blank_page"
  by (simp add: wait_for_page_load_def selectors_def blank_page_def)

text \<open>
  Claim C5 asks that an attempt in which columns and rows are found but no pair survives the
  test be declared failed and retried. The code does not do so: \<open>all_car_data\<close> holds an
  empty dict per car name from line 140 on, so the test \<open>if not all_car_data\<close> of line 207
  is false, \<open>extract_car_info\<close> returns the dict of empty dicts, and \<open>run\<close> saves it after
  a single \<open>page.goto\<close>.
\<close>

theorem empty_result_is_saved:
  "extract_car_info (table_page [placeholder_row]) = (Some three_empty, placeholder_log) \<and>
   run sample_spider (steady_site (Arrived (table_page [placeholder_row])) True) =
     (Returns (Some three_empty),
      [PlaywrightStarted, BrowserLaunched, Goto (ascii ''http://cars/1'')] @ placeholder_log @
      [FileWritten sample_dir (ascii ''Brand_Model.json'') three_empty,
       BrowserClosed, PlaywrightStopped])"
  by (simp add: run_defs run_loop.simps placeholder_row_extracted table_page_ready
      sample_spider_def three_empty_def ascii_def)

text \<open>
  Claim C8 asks for a backoff sleep after every failed attempt with attempts remaining,
  whichever stage failed. The code sleeps after a failed \<open>page.goto\<close> and after a failed
  extraction, but not after a failed \<open>wait_for_page_load\<close>: with a page on which no selector
  becomes visible, every \<open>page.goto\<close> but the first follows the failure message directly.
\<close>

theorem no_sleep_after_readiness_failure:
  "run sample_spider (steady_site (Arrived blank_page) True) =
     (Returns None,
      [PlaywrightStarted, BrowserLaunched,
       Goto (ascii ''http://cars/1''), PageLoadFailed 1,
       Goto (ascii ''http://cars/1''), PageLoadFailed 2,
       Goto (ascii ''http://cars/1''), PageLoadFailed 3,
       MaxRetriesReached (ascii ''Model''), BrowserClosed, PlaywrightStopped])"
  by (simp add: run_defs run_loop.simps blank_page_not_ready sample_spider_def ascii_def)

section \<open>The retry loop\<close>

lemma run_loop_all_fail:
  "retry_count \<le> m \<Longrightarrow> (\<forall>k. retry_count \<le> k \<and> k < m \<longrightarrow> attempts w k = GotoRaises) \<Longrightarrow>
   run_loop sp w m retry_count =
     (None, m, concat (replicate (m - retry_count) [Goto (url sp), AttemptError, SleepUniform 5 10]))"
proof (induction "m - retry_count" arbitrary: retry_count)
  case 0
  then have "retry_count = m" by simp
  then show ?case by (simp add: run_loop.simps)
next
  case (Suc d)
  then have lt: "retry_count < m" and d: "d = m - Suc retry_count" by simp_all
  have here: "attempts w retry_count = GotoRaises" using Suc.prems(2) lt by simp
  have "run_loop sp w m (Suc retry_count) =
     (None, m, concat (replicate (m - Suc retry_count) [Goto (url sp), AttemptError, SleepUniform 5 10]))"
    using Suc.hyps(1) [OF d] lt Suc.prems(2) by simp
  moreover have "m - retry_count = Suc (m - Suc retry_count)" using lt by simp
  ultimately show ?case
    using lt here by (subst run_loop.simps) (simp add: attempt_events_def)
qed

lemma filter_goto_replicate:
  "length (filter is_goto (concat (replicate n [Goto u, AttemptError, SleepUniform a b]))) = n"
  by (induction n) simp_all

text \<open>
  Claim C6. When the browser starts and every \<open>page.goto\<close> raises, \<open>run\<close> makes exactly
  \<open>max_retries\<close> = 3 attempts, each a \<open>page.goto\<close> followed by the error message and the
  sleep, then reports that the maximum was reached and returns \<open>None\<close>.
\<close>

theorem retry_bound_exact:
  assumes "init_result w = InitOk" and "context_ok w"
    and "\<forall>k<max_retries. attempts w k = GotoRaises"
  shows "max_retries = 3 \<and>
         run sp w =
           (Returns None,
            [PlaywrightStarted, BrowserLaunched] @
            concat (replicate max_retries [Goto (url sp), AttemptError, SleepUniform 5 10]) @
            [MaxRetriesReached (car_name sp), BrowserClosed, PlaywrightStopped]) \<and>
         length (filter is_goto (snd (run sp w))) = max_retries"
proof -
  have loop: "run_loop sp w max_retries 0 =
     (None, max_retries, concat (replicate max_retries [Goto (url sp), AttemptError, SleepUniform 5 10]))"
    using run_loop_all_fail [of 0 max_retries w sp] assms(3) by simp
  have r: "run sp w =
           (Returns None,
            [PlaywrightStarted, BrowserLaunched] @
            concat (replicate max_retries [Goto (url sp), AttemptError, SleepUniform 5 10]) @
            [MaxRetriesReached (car_name sp), BrowserClosed, PlaywrightStopped])"
    using assms(1,2) by (simp add: run_def loop)
  have "length (filter is_goto (snd (run sp w))) = max_retries"
    unfolding r by (simp add: filter_goto_replicate)
  then show ?thesis using r by (simp add: max_retries_def)
qed

theorem retry_bound_exact_witness:
  "init_result (steady_site GotoRaises True) = InitOk \<and> context_ok (steady_site GotoRaises True) \<and>
   attempts (steady_site GotoRaises True) 0 = GotoRaises \<and>
   attempts (steady_site GotoRaises True) 1 = GotoRaises \<and>
   attempts (steady_site GotoRaises True) 2 = GotoRaises \<and>
   fst (run sample_spider (steady_site GotoRaises True)) = Returns None \<and>
   length (filter is_goto (snd (run sample_spider (steady_site GotoRaises True)))) = 3"
proof -
  have h1: "init_result (steady_site GotoRaises True) = InitOk"
    and h2: "context_ok (steady_site GotoRaises True)"
    and h3: "\<forall>k<max_retries. attempts (steady_site GotoRaises True) k = GotoRaises"
    and h4: "attempts (steady_site GotoRaises True) 0 = GotoRaises"
      "attempts (steady_site GotoRaises True) 1 = GotoRaises"
      "attempts (steady_site GotoRaises True) 2 = GotoRaises"
    by (simp_all add: steady_site_def)
  note inst = retry_bound_exact [OF h1 h2 h3, of sample_spider]
  from inst have m: "max_retries = 3" by blast
  from inst have "length (filter is_goto (snd (run sample_spider (steady_site GotoRaises True))))
      = max_retries"
    by blast
  then have g: "length (filter is_goto (snd (run sample_spider (steady_site GotoRaises True)))) = 3"
    unfolding m .
  from inst have "run sample_spider (steady_site GotoRaises True) =
           (Returns None,
            [PlaywrightStarted, BrowserLaunched] @
            concat (replicate max_retries [Goto (url sample_spider), AttemptError, SleepUniform 5 10]) @
            [MaxRetriesReached (car_name sample_spider), BrowserClosed, PlaywrightStopped])"
    by blast
  then have f: "fst (run sample_spider (steady_site GotoRaises True)) = Returns None"
    by simp
  from h1 h2 h4 f g show ?thesis by blast
qed

section \<open>A unit without a file, a unit without a url\<close>

lemma run_loop_no_write:
  "\<not> write_ok w \<Longrightarrow> fst (run_loop sp w m retry_count) = None"
proof (induction sp w m retry_count rule: run_loop.induct)
  case (1 sp w m retry_count)
  show ?case
  proof (cases "retry_count < m")
    case False
    then show ?thesis by (subst run_loop.simps) simp
  next
    case True
    show ?thesis
    proof (cases "attempts w retry_count")
      case GotoRaises
      then show ?thesis using True "1.IH"(1) "1.prems"
        by (subst run_loop.simps) (simp add: attempt_events_def)
    next
      case (Arrived p)
      then show ?thesis using True "1.IH"(2,3) "1.prems"
        by (subst run_loop.simps) (simp add: attempt_events_def save_data_def)
    qed
  qed
qed

lemma run_no_write: "\<not> write_ok w \<Longrightarrow> fst (run sp w) = Raises \<or> fst (run sp w) = Returns None"
  by (simp add: run_def Let_def run_loop_no_write split: init_result.split)

lemma process_car_no_write: "\<not> write_ok w \<Longrightarrow> fst (process_car info w dir) = None"
proof -
  assume nw: "\<not> write_ok w"
  have "fst (case run sp w of
               (Raises, evs) \<Rightarrow> (None, a # evs @ [b])
             | (Returns r, evs) \<Rightarrow> (r, a # evs)) = None" for sp a b
    using run_no_write [OF nw, of sp] by (cases "run sp w") auto
  then show ?thesis
    by (simp add: process_car_def Let_def split: option.split)
qed

lemma process_car_no_url:
  "\<not> has_url info \<Longrightarrow>
   process_car info w dir = (None, [MissingUrl (get_or info ''subname'' unknown_model)])"
  by (simp add: process_car_def has_url_def Let_def split: option.splits)

lemma fst_batch_step:
  "fst (batch_step dir x st) =
     (if truthy (fst (process_car (fst x) (snd x) dir))
      then add_car (fst x) (the (fst (process_car (fst x) (snd x) dir))) (fst st)
      else fst st)"
  by (simp add: batch_step_def Let_def)

lemma snd_batch_step:
  "snd (batch_step dir x st) = snd st @ snd (process_car (fst x) (snd x) dir)"
  by (simp add: batch_step_def Let_def)

lemma fst_fold_batch_step:
  "fst st = fst st' \<Longrightarrow> fst (fold (batch_step dir) xs st) = fst (fold (batch_step dir) xs st')"
proof (induction xs arbitrary: st st')
  case Nil
  then show ?case by simp
next
  case (Cons x xs)
  have "fst (batch_step dir x st) = fst (batch_step dir x st')"
    using Cons.prems by (simp add: fst_batch_step)
  from Cons.IH [OF this] show ?case by simp
qed

lemma aggregate_skip:
  assumes "fst (process_car (fst x) (snd x) dir) = None"
  shows "aggregate dir (before @ x # after) = aggregate dir (before @ after)"
proof -
  have "fst (batch_step dir x (fold (batch_step dir) before ([], []))) =
        fst (fold (batch_step dir) before ([], []))"
    using assms by (simp add: fst_batch_step truthy_def)
  from fst_fold_batch_step [OF this, of dir after] show ?thesis
    by (simp add: aggregate_def)
qed

lemma last_process_all_cars:
  "car_list \<noteq> [] \<Longrightarrow>
   last (process_all_cars dir car_list) = AggregateWritten dir (aggregate dir car_list)"
  by (simp add: process_all_cars_def aggregate_def Let_def)

lemma exact_row_extracted:
  "extract_car_info (table_page [exact_row]) = (Some (fst exact_result), snd exact_result)"
  by (simp add: extract_defs sample_defs exact_result_def)

lemma good_run:
  "fst (run sp (steady_site (Arrived (table_page [exact_row])) True)) =
     Returns (Some (fst exact_result))"
  by (simp add: run_defs run_loop.simps table_page_ready exact_row_extracted Let_def
      exact_result_def)

lemma good_process_car:
  "fst (process_car other_info (steady_site (Arrived (table_page [exact_row])) True) dir) =
     Some (fst exact_result)"
proof -
  have "fst (case run sp (steady_site (Arrived (table_page [exact_row])) True) of
               (Raises, evs) \<Rightarrow> (None, a # evs @ [b])
             | (Returns r, evs) \<Rightarrow> (r, a # evs)) = Some (fst exact_result)" for sp a b
    using good_run [of sp]
    by (cases "run sp (steady_site (Arrived (table_page [exact_row])) True)") auto
  then show ?thesis
    by (simp add: process_car_def Let_def other_info_def ascii_def)
qed

lemma good_unit_aggregated:
  "aggregate sample_dir [(other_info, steady_site (Arrived (table_page [exact_row])) True)] =
     [(ascii ''Brand'', [(ascii ''Other'', fst exact_result)])]"
proof -
  have "truthy (Some (fst exact_result))"
    by (simp add: truthy_def exact_result_def)
  then show ?thesis
    by (simp add: aggregate_def fst_batch_step good_process_car)
      (simp add: add_car_def Let_def get_or_def other_info_def)
qed

text \<open>
  Claim C7, as the code has it. When the JSON file of a unit cannot be written, \<open>save_data\<close>
  catches the error, prints it and returns \<open>None\<close>; \<open>run\<close> returns what \<open>save_data\<close>
  returned, so the unit's result is \<open>None\<close>. The batch goes on to its end and writes the
  combined file, and the unit is absent from the AggregateDataset: the dataset is the one of the
  batch without that unit.
\<close>

theorem failed_write_drops_unit:
  assumes "\<not> write_ok w"
  shows "save_data sp w data = (None, [SaveFailed]) \<and>
         fst (process_car info w dir) = None \<and>
         aggregate dir (before @ (info, w) # after) = aggregate dir (before @ after) \<and>
         last (process_all_cars dir (before @ (info, w) # after)) =
           AggregateWritten dir (aggregate dir (before @ after))"
proof -
  have none: "fst (process_car info w dir) = None"
    using assms by (rule process_car_no_write)
  then have skip: "aggregate dir (before @ (info, w) # after) = aggregate dir (before @ after)"
    using aggregate_skip [of "(info, w)" dir before after] by simp
  have "last (process_all_cars dir (before @ (info, w) # after)) =
          AggregateWritten dir (aggregate dir (before @ (info, w) # after))"
    by (rule last_process_all_cars) simp
  then show ?thesis using assms none skip by (simp add: save_data_def)
qed

theorem failed_write_drops_unit_witness:
  "\<not> write_ok (steady_site (Arrived (table_page [exact_row])) False) \<and>
   save_data sample_spider (steady_site (Arrived (table_page [exact_row])) False) (fst exact_result) =
     (None, [SaveFailed]) \<and>
   fst (process_car sample_info (steady_site (Arrived (table_page [exact_row])) False) sample_dir) = None \<and>
   aggregate sample_dir
     [(sample_info, steady_site (Arrived (table_page [exact_row])) False),
      (other_info, steady_site (Arrived (table_page [exact_row])) True)] =
     [(ascii ''Brand'', [(ascii ''Other'', fst exact_result)])]"
proof -
  have h: "\<not> write_ok (steady_site (Arrived (table_page [exact_row])) False)"
    by (simp add: steady_site_def)
  note inst = failed_write_drops_unit [OF h, of sample_spider "fst exact_result" sample_info
      sample_dir "[]" "[(other_info, steady_site (Arrived (table_page [exact_row])) True)]"]
  from inst have a: "save_data sample_spider (steady_site (Arrived (table_page [exact_row])) False)
      (fst exact_result) = (None, [SaveFailed])"
    by blast
  from inst have b: "fst (process_car sample_info (steady_site (Arrived (table_page [exact_row])) False)
      sample_dir) = None"
    by blast
  from inst have "aggregate sample_dir
     ([] @ (sample_info, steady_site (Arrived (table_page [exact_row])) False) #
      [(other_info, steady_site (Arrived (table_page [exact_row])) True)]) =
     aggregate sample_dir ([] @ [(other_info, steady_site (Arrived (table_page [exact_row])) True)])"
    by blast
  then have c: "aggregate sample_dir
     [(sample_info, steady_site (Arrived (table_page [exact_row])) False),
      (other_info, steady_site (Arrived (table_page [exact_row])) True)] =
     [(ascii ''Brand'', [(ascii ''Other'', fst exact_result)])]"
    by (simp add: good_unit_aggregated)
  from h a b c show ?thesis by blast
qed

text \<open>
  Claim C7 as stated has the in-memory result of such a unit in the AggregateDataset. A batch
  of one unit whose page yields a result and whose file cannot be written ends with an empty
  dataset.
\<close>

theorem failed_write_counterexample:
  "fst (extract_car_info (table_page [exact_row])) = Some (fst exact_result) \<and>
   \<not> write_ok (steady_site (Arrived (table_page [exact_row])) False) \<and>
   aggregate sample_dir [(sample_info, steady_site (Arrived (table_page [exact_row])) False)] = []"
proof -
  have h: "\<not> write_ok (steady_site (Arrived (table_page [exact_row])) False)"
    by (simp add: steady_site_def)
  have "fst (process_car sample_info (steady_site (Arrived (table_page [exact_row])) False) sample_dir)
      = None"
    using h by (rule process_car_no_write)
  then have "aggregate sample_dir
      ([] @ (sample_info, steady_site (Arrived (table_page [exact_row])) False) # []) =
      aggregate sample_dir ([] @ [])"
    using aggregate_skip [of "(sample_info, steady_site (Arrived (table_page [exact_row])) False)"
        sample_dir "[]" "[]"] by simp
  then have "aggregate sample_dir
      [(sample_info, steady_site (Arrived (table_page [exact_row])) False)] = []"
    by (simp add: aggregate_def)
  then show ?thesis using h by (simp add: exact_row_extracted)
qed

text \<open>
  Claim C10. For an entry without a \<open>url\<close> key, \<open>process_car\<close> returns \<open>None\<close> and does
  nothing but print the message: no spider is made, no page is fetched. The batch goes on with
  the entries that follow and writes the combined file, and the AggregateDataset is the one of
  the batch without that entry.
\<close>

theorem missing_url_skipped:
  assumes "map_of info ''url'' = None"
  shows "process_car info w dir = (None, [MissingUrl (get_or info ''subname'' unknown_model)]) \<and>
         batch_step dir (info, w) (all_cars_data, log) =
           (all_cars_data, log @ [MissingUrl (get_or info ''subname'' unknown_model)]) \<and>
         aggregate dir (before @ (info, w) # after) = aggregate dir (before @ after) \<and>
         last (process_all_cars dir (before @ (info, w) # after)) =
           AggregateWritten dir (aggregate dir (before @ after))"
proof -
  have nu: "\<not> has_url info" using assms by (simp add: has_url_def)
  have pc: "process_car info w dir = (None, [MissingUrl (get_or info ''subname'' unknown_model)])"
    using nu by (rule process_car_no_url)
  then have step: "batch_step dir (info, w) (all_cars_data, log) =
           (all_cars_data, log @ [MissingUrl (get_or info ''subname'' unknown_model)])"
    by (simp add: batch_step_def truthy_def)
  have skip: "aggregate dir (before @ (info, w) # after) = aggregate dir (before @ after)"
    using aggregate_skip [of "(info, w)" dir before after] pc by simp
  have "last (process_all_cars dir (before @ (info, w) # after)) =
          AggregateWritten dir (aggregate dir (before @ (info, w) # after))"
    by (rule last_process_all_cars) simp
  then show ?thesis using pc step skip by simp
qed

theorem missing_url_skipped_witness:
  "map_of no_url_info ''url'' = None \<and>
   process_car no_url_info (steady_site GotoRaises True) sample_dir =
     (None, [MissingUrl (ascii ''Model'')]) \<and>
   aggregate sample_dir
     [(no_url_info, steady_site GotoRaises True),
      (other_info, steady_site (Arrived (table_page [exact_row])) True)] =
     [(ascii ''Brand'', [(ascii ''Other'', fst exact_result)])]"
proof -
  have h: "map_of no_url_info ''url'' = None"
    by (simp add: no_url_info_def)
  note inst = missing_url_skipped [OF h, of "steady_site GotoRaises True" sample_dir "[]" "[]" "[]"
      "[(other_info, steady_site (Arrived (table_page [exact_row])) True)]"]
  from inst have "process_car no_url_info (steady_site GotoRaises True) sample_dir =
     (None, [MissingUrl (get_or no_url_info ''subname'' unknown_model)])"
    by blast
  then have a: "process_car no_url_info (steady_site GotoRaises True) sample_dir =
     (None, [MissingUrl (ascii ''Model'')])"
    by (simp add: get_or_def no_url_info_def)
  from inst have "aggregate sample_dir
     ([] @ (no_url_info, steady_site GotoRaises True) #
      [(other_info, steady_site (Arrived (table_page [exact_row])) True)]) =
     aggregate sample_dir ([] @ [(other_info, steady_site (Arrived (table_page [exact_row])) True)])"
    by blast
  then have b: "aggregate sample_dir
     [(no_url_info, steady_site GotoRaises True),
      (other_info, steady_site (Arrived (table_page [exact_row])) True)] =
     [(ascii ''Brand'', [(ascii ''Other'', fst exact_result)])]"
    by (simp add: good_unit_aggregated)
  from h a b show ?thesis by blast
qed

section \<open>The browser of a run\<close>

lemma ext_put_value:
  "list_all extraction_event (snd st) \<Longrightarrow> list_all extraction_event (snd (put_value l n c st))"
  by (simp add: put_value_def split: option.split)

lemma ext_put_partial:
  "list_all extraction_event (snd st) \<Longrightarrow> list_all extraction_event (snd (put_partial l n c st))"
  by (simp add: put_partial_def split: option.split)

lemma ext_partial_loop:
  "list_all extraction_event (snd st) \<Longrightarrow>
   list_all extraction_event (snd (partial_loop names l i cells st))"
  by (induction cells arbitrary: i st) (simp_all add: ext_put_partial)

lemma ext_fold_put_value:
  "list_all extraction_event (snd st) \<Longrightarrow>
   list_all extraction_event (snd (fold (\<lambda>(n, c). put_value l n c) zs st))"
proof (induction zs arbitrary: st)
  case Nil
  then show ?case by simp
next
  case (Cons z zs)
  obtain n c where z: "z = (n, c)" by (cases z)
  have "list_all extraction_event (snd (put_value l n c st))"
    using Cons.prems by (rule ext_put_value)
  from Cons.IH [OF this] show ?case using z by simp
qed

lemma ext_align_row:
  "list_all extraction_event (snd st) \<Longrightarrow> list_all extraction_event (snd (align_row names l cells st))"
  by (simp add: align_row_def ext_fold_put_value ext_partial_loop)

lemma ext_process_row:
  "list_all extraction_event (snd st) \<Longrightarrow> list_all extraction_event (snd (process_row names r st))"
  by (simp add: process_row_def ext_align_row split: outcome.split option.split)

lemma ext_fold_rows:
  "list_all extraction_event (snd st) \<Longrightarrow>
   list_all extraction_event (snd (fold (process_row names) rs st))"
  by (induction rs arbitrary: st) (simp_all add: ext_process_row)

lemma ext_extract_rows: "list_all extraction_event (snd (extract_rows names data rs))"
  using ext_fold_rows [of "(data, [])" names rs] by (simp add: extract_rows_def Let_def)

lemma ext_extract_params: "list_all extraction_event (snd (extract_params p names data))"
  by (simp add: extract_params_def ext_extract_rows split: outcome.split)

lemma ext_extract_car_info: "list_all extraction_event (snd (extract_car_info p))"
  by (simp add: extract_car_info_def extract_styles_def Let_def ext_extract_params
      split: outcome.split)

lemma quiet_extraction: "list_all (\<lambda>e. \<not> browser_event e) (snd (extract_car_info p))"
proof -
  have "\<not> browser_event e" if "extraction_event e" for e
    using that by (cases e) simp_all
  then show ?thesis
    using ext_extract_car_info [of p] by (simp add: list_all_iff)
qed

lemma quiet_run_loop:
  "list_all (\<lambda>e. \<not> browser_event e) (snd (snd (run_loop sp w m retry_count)))"
proof (induction sp w m retry_count rule: run_loop.induct)
  case (1 sp w m retry_count)
  show ?case
  proof (cases "retry_count < m")
    case False
    then show ?thesis by (subst run_loop.simps) simp
  next
    case True
    show ?thesis
    proof (cases "attempts w retry_count")
      case GotoRaises
      then show ?thesis using True "1.IH"(1)
        by (subst run_loop.simps) (simp add: attempt_events_def)
    next
      case (Arrived p)
      then show ?thesis using True "1.IH"(2,3) quiet_extraction [of p]
        by (subst run_loop.simps) (simp add: attempt_events_def save_data_def)
    qed
  qed
qed

lemma quiet_notin:
  "list_all (\<lambda>e. \<not> browser_event e) evs \<Longrightarrow> BrowserLaunched \<notin> set evs \<and> BrowserClosed \<notin> set evs"
  by (auto simp: list_all_iff)

lemma run_browser_bracket:
  assumes "init_result w = InitOk"
  shows "\<exists>mid. snd (run sp w) = [PlaywrightStarted, BrowserLaunched] @ mid @ [BrowserClosed, PlaywrightStopped]
           \<and> BrowserLaunched \<notin> set mid \<and> BrowserClosed \<notin> set mid"
proof (cases "context_ok w")
  case False
  then have "snd (run sp w) = [PlaywrightStarted, BrowserLaunched] @ [RunError] @ [BrowserClosed, PlaywrightStopped]"
    using assms by (simp add: run_def)
  moreover have "BrowserLaunched \<notin> set [RunError] \<and> BrowserClosed \<notin> set [RunError]" by simp
  ultimately show ?thesis by blast
next
  case True
  let ?r = "run_loop sp w max_retries 0"
  let ?mid = "snd (snd ?r) @ (if fst (snd ?r) \<ge> max_retries then [MaxRetriesReached (car_name sp)] else [])"
  have "snd (run sp w) = [PlaywrightStarted, BrowserLaunched] @ ?mid @ [BrowserClosed, PlaywrightStopped]"
    using assms True by (simp add: run_def Let_def)
  moreover have "BrowserLaunched \<notin> set ?mid \<and> BrowserClosed \<notin> set ?mid"
    using quiet_notin [OF quiet_run_loop [of sp w max_retries 0]] by simp
  ultimately show ?thesis by blast
qed

lemma run_returns: "init_result w = InitOk \<Longrightarrow> \<exists>r. fst (run sp w) = Returns r"
  by (simp add: run_def Let_def)

lemma run_browser_counts:
  assumes "init_result w = InitOk"
  shows "count_list (snd (run sp w)) BrowserLaunched = 1 \<and> count_list (snd (run sp w)) BrowserClosed = 1"
proof -
  obtain mid where r: "snd (run sp w) =
      [PlaywrightStarted, BrowserLaunched] @ mid @ [BrowserClosed, PlaywrightStopped]"
    and m: "BrowserLaunched \<notin> set mid" "BrowserClosed \<notin> set mid"
    using run_browser_bracket [OF assms] by blast
  from m have "count_list mid BrowserLaunched = 0" "count_list mid BrowserClosed = 0"
    by (simp_all add: count_list_0_iff)
  then show ?thesis unfolding r by simp
qed

lemma process_car_browser_counts:
  assumes "init_result w = InitOk"
  shows "count_list (snd (process_car info w dir)) BrowserLaunched = (if has_url info then 1 else 0) \<and>
         count_list (snd (process_car info w dir)) BrowserClosed = (if has_url info then 1 else 0)"
proof (cases "has_url info")
  case False
  then show ?thesis by (simp add: process_car_no_url)
next
  case True
  then obtain u where u: "map_of info ''url'' = Some u" "u \<noteq> []"
    by (auto simp: has_url_def split: option.splits)
  have "count_list (snd (case run sp w of
               (Raises, evs) \<Rightarrow> (None, SpiderCreated a b c d # evs @ [CarFailed e])
             | (Returns r, evs) \<Rightarrow> (r, SpiderCreated a b c d # evs))) BrowserLaunched = 1 \<and>
        count_list (snd (case run sp w of
               (Raises, evs) \<Rightarrow> (None, SpiderCreated a b c d # evs @ [CarFailed e])
             | (Returns r, evs) \<Rightarrow> (r, SpiderCreated a b c d # evs))) BrowserClosed = 1"
    for sp a b c d e
    using run_browser_counts [OF assms, of sp] run_returns [OF assms, of sp]
    by (cases "run sp w") auto
  then show ?thesis using True u
    by (simp add: process_car_def Let_def)
qed

lemma snd_fold_batch_step:
  "snd (fold (batch_step dir) xs st) =
     snd st @ concat (map (\<lambda>x. snd (process_car (fst x) (snd x) dir)) xs)"
  by (induction xs arbitrary: st) (simp_all add: snd_batch_step)

lemma count_list_concat_batch:
  assumes "\<forall>x\<in>set xs. init_result (snd x) = InitOk"
  shows "count_list (concat (map (\<lambda>x. snd (process_car (fst x) (snd x) dir)) xs)) BrowserLaunched =
           length (filter (\<lambda>x. has_url (fst x)) xs) \<and>
         count_list (concat (map (\<lambda>x. snd (process_car (fst x) (snd x) dir)) xs)) BrowserClosed =
           length (filter (\<lambda>x. has_url (fst x)) xs)"
  using assms
proof (induction xs)
  case Nil
  then show ?case by simp
next
  case (Cons x xs)
  have "init_result (snd x) = InitOk" using Cons.prems by simp
  from process_car_browser_counts [OF this, of "fst x" dir] Cons.IH Cons.prems
  show ?case by simp
qed

lemma batch_browser_counts:
  assumes "\<forall>x\<in>set car_list. init_result (snd x) = InitOk"
  shows "count_list (process_all_cars dir car_list) BrowserLaunched =
           length (filter (\<lambda>x. has_url (fst x)) car_list) \<and>
         count_list (process_all_cars dir car_list) BrowserClosed =
           length (filter (\<lambda>x. has_url (fst x)) car_list)"
proof (cases "car_list = []")
  case True
  then show ?thesis by (simp add: process_all_cars_def)
next
  case False
  then show ?thesis
    using count_list_concat_batch [OF assms, of dir]
    by (simp add: process_all_cars_def Let_def snd_fold_batch_step)
qed

text \<open>
  Claim C9, as the code has it. The browser belongs to one run, not to the batch. A run whose
  \<open>init_browser\<close> succeeds launches the browser once, at its start, and closes it once, at its
  end, whatever happens between (success, the retries used up, no context): nothing between
  the two launches or closes a browser. In a batch whose runs all start their browser, the
  browser is launched, and closed, once per entry that has a url.
\<close>

theorem browser_per_unit:
  "(init_result w = InitOk \<longrightarrow>
      (\<exists>mid. snd (run sp w) =
                [PlaywrightStarted, BrowserLaunched] @ mid @ [BrowserClosed, PlaywrightStopped]
            \<and> BrowserLaunched \<notin> set mid \<and> BrowserClosed \<notin> set mid)) \<and>
   ((\<forall>x\<in>set car_list. init_result (snd x) = InitOk) \<longrightarrow>
      count_list (process_all_cars dir car_list) BrowserLaunched =
        length (filter (\<lambda>x. has_url (fst x)) car_list) \<and>
      count_list (process_all_cars dir car_list) BrowserClosed =
        length (filter (\<lambda>x. has_url (fst x)) car_list))"
  using run_browser_bracket [of w sp] batch_browser_counts [of car_list dir] by blast

lemma three_cars_ok: "\<forall>x\<in>set three_cars. init_result (snd x) = InitOk"
  by (simp add: three_cars_def steady_site_def)

lemma two_cars_ok: "\<forall>x\<in>set two_cars. init_result (snd x) = InitOk"
  by (simp add: two_cars_def steady_site_def)

theorem browser_per_unit_witness:
  "init_result (steady_site (Arrived blank_page) True) = InitOk \<and>
   (\<exists>mid. snd (run sample_spider (steady_site (Arrived blank_page) True)) =
            [PlaywrightStarted, BrowserLaunched] @ mid @ [BrowserClosed, PlaywrightStopped]
          \<and> BrowserLaunched \<notin> set mid \<and> BrowserClosed \<notin> set mid) \<and>
   count_list (process_all_cars sample_dir three_cars) BrowserLaunched = 2 \<and>
   count_list (process_all_cars sample_dir three_cars) BrowserClosed = 2"
proof -
  have h: "init_result (steady_site (Arrived blank_page) True) = InitOk"
    by (simp add: steady_site_def)
  have n: "length (filter (\<lambda>x. has_url (fst x)) three_cars) = 2"
    by (simp add: three_cars_def has_url_def sample_info_def other_info_def no_url_info_def ascii_def)
  note inst = browser_per_unit [of "steady_site (Arrived blank_page) True" sample_spider
      three_cars sample_dir]
  from inst h have a: "\<exists>mid. snd (run sample_spider (steady_site (Arrived blank_page) True)) =
            [PlaywrightStarted, BrowserLaunched] @ mid @ [BrowserClosed, PlaywrightStopped]
          \<and> BrowserLaunched \<notin> set mid \<and> BrowserClosed \<notin> set mid"
    by blast
  from inst three_cars_ok have "count_list (process_all_cars sample_dir three_cars) BrowserLaunched =
        length (filter (\<lambda>x. has_url (fst x)) three_cars) \<and>
      count_list (process_all_cars sample_dir three_cars) BrowserClosed =
        length (filter (\<lambda>x. has_url (fst x)) three_cars)"
    by blast
  then have b: "count_list (process_all_cars sample_dir three_cars) BrowserLaunched = 2 \<and>
     count_list (process_all_cars sample_dir three_cars) BrowserClosed = 2"
    unfolding n .
  from h a b show ?thesis by blast
qed

text \<open>
  Claim C9 as stated has one browser acquired and released once for the whole batch. A batch
  of two entries with a url launches and closes a browser twice.
\<close>

theorem browser_once_counterexample:
  "count_list (process_all_cars sample_dir two_cars) BrowserLaunched = 2 \<and>
   count_list (process_all_cars sample_dir two_cars) BrowserClosed = 2"
proof -
  have n: "length (filter (\<lambda>x. has_url (fst x)) two_cars) = 2"
    by (simp add: two_cars_def has_url_def sample_info_def other_info_def ascii_def)
  from batch_browser_counts [OF two_cars_ok, of sample_dir] show ?thesis
    unfolding n .
qed


end
